theory Spec2Isabelle
  imports Main "HOL-Library.Sublist"
begin

section \<open>Arabic text shaping adapter: babeldoc/format/pdf/document_il/utils/rtl.py\<close>

subsection \<open>Values\<close>

text \<open>
  A Python \<^verbatim>\<open>str\<close> is a sequence of Unicode code points; the comparisons of
  characters in the source (lines 43, 139 and 183) compare code points.
\<close>

type_synonym ustring = "nat list"

definition ustr :: "string \<Rightarrow> ustring" where
  "ustr s = map of_char s"

text \<open>
  The values that reach \<^verbatim>\<open>shape_text\<close> and the unicode buffers: a string, \<^verbatim>\<open>None\<close>,
  or (the non-text case of the isinstance check) an integer.
\<close>

datatype pyval = PStr ustring | PNone | PInt int

fun truthy :: "pyval \<Rightarrow> bool" where
  "truthy (PStr t) = (t \<noteq> [])"
| "truthy PNone = False"
| "truthy (PInt i) = (i \<noteq> 0)"

text \<open>\<^verbatim>\<open>str(n)\<close> of an integer: its decimal digits, with a minus sign when negative.\<close>

function nat_digits :: "nat \<Rightarrow> ustring" where
  "nat_digits n = (if n < 10 then [48 + n] else nat_digits (n div 10) @ [48 + n mod 10])"
  by pat_completeness auto
termination
  by (relation "measure (\<lambda>n. n)") auto

definition str_of_int :: "int \<Rightarrow> ustring" where
  "str_of_int i = (if i < 0 then 45 # nat_digits (nat (- i)) else nat_digits (nat i))"

text \<open>Exceptions of class \<^verbatim>\<open>Exception\<close>: the ones \<^verbatim>\<open>except Exception\<close> catches.\<close>

datatype exn = TypeError | LibraryError nat

subsection \<open>External capabilities\<close>

text \<open>
  \<^verbatim>\<open>unicodedata.normalize('NFKC', _)\<close>, \<^verbatim>\<open>ArabicReshaper.reshape\<close> (with the fixed
  configuration of \<^verbatim>\<open>_initialize\<close>) and \<^verbatim>\<open>get_display(_, base_dir='R')\<close> are libraries
  outside the repository: each is a function that returns a string or raises.
  \<^verbatim>\<open>unicode_lower\<close> is what \<^verbatim>\<open>str.lower\<close> does on a string with a non-ASCII code point
  (the Unicode case mapping tables).
\<close>

record externals =
  normalize :: "ustring \<Rightarrow> exn + ustring"
  reshape :: "ustring \<Rightarrow> exn + ustring"
  get_display :: "ustring \<Rightarrow> exn + ustring"
  unicode_lower :: "ustring \<Rightarrow> ustring"

datatype ext_call = Normalize ustring | Reshape ustring | GetDisplay ustring

subsection \<open>Language tags\<close>

definition ascii_lower :: "nat \<Rightarrow> nat" where
  "ascii_lower c = (if 65 \<le> c \<and> c \<le> 90 then c + 32 else c)"

text \<open>
  \<^verbatim>\<open>str.lower\<close>: on an ASCII string only the letters A to Z change; any other string
  goes through the Unicode tables.
\<close>

definition str_lower :: "externals \<Rightarrow> ustring \<Rightarrow> ustring" where
  "str_lower env t =
     (if list_all (\<lambda>c. c < 128) t then map ascii_lower t else unicode_lower env t)"

text \<open>
  \<^verbatim>\<open>is_arabic_language_code(lang_code)\<close>; the tag is a string or \<^verbatim>\<open>None\<close>.
\<close>

definition is_arabic_language_code :: "externals \<Rightarrow> ustring option \<Rightarrow> bool" where
  "is_arabic_language_code env lang_code =
     (case lang_code of
        None \<Rightarrow> False
      | Some t \<Rightarrow>
          if t = [] then False
          else (let l = str_lower env t
                in l = ustr ''ar'' \<or> prefix (ustr ''ar-'') l \<or> suffix (ustr ''-ar'') l))"

subsection \<open>The memoization cache\<close>

text \<open>
  \<^verbatim>\<open>@lru_cache(maxsize=1024)\<close> around \<^verbatim>\<open>shape_text\<close>. The receiver is the one
  singleton, so an entry is keyed by the argument. Entries are kept most recently used
  first; \<^verbatim>\<open>hits\<close> and \<^verbatim>\<open>misses\<close> are the counters \<^verbatim>\<open>cache_info()\<close> reports.
  \<^verbatim>\<open>ext_calls\<close> records, in order, every invocation of an external capability.
\<close>

record state =
  cache :: "(pyval \<times> pyval) list"
  hits :: nat
  misses :: nat
  ext_calls :: "ext_call list"

definition maxsize :: nat where
  "maxsize = 1024"

definition init_state :: state where
  "init_state = \<lparr>cache = [], hits = 0, misses = 0, ext_calls = []\<rparr>"

definition lru_touch :: "pyval \<Rightarrow> pyval \<Rightarrow> (pyval \<times> pyval) list \<Rightarrow> (pyval \<times> pyval) list" where
  "lru_touch k v c = (k, v) # filter (\<lambda>e. fst e \<noteq> k) c"

definition lru_store :: "pyval \<Rightarrow> pyval \<Rightarrow> (pyval \<times> pyval) list \<Rightarrow> (pyval \<times> pyval) list" where
  "lru_store k v c = (if maxsize \<le> length c then (k, v) # butlast c else (k, v) # c)"

subsection \<open>ArabicTextShaper.shape_text\<close>

definition in_arabic_block :: "nat \<Rightarrow> bool" where
  "in_arabic_block c = (0x0600 \<le> c \<and> c \<le> 0x06FF)"

definition in_presentation_forms_a :: "nat \<Rightarrow> bool" where
  "in_presentation_forms_a c = (0xFB50 \<le> c \<and> c \<le> 0xFDFF)"

text \<open>The condition of line 43.\<close>

definition contains_arabic :: "ustring \<Rightarrow> bool" where
  "contains_arabic t = (list_ex in_arabic_block t \<or> list_ex in_presentation_forms_a t)"

text \<open>
  Lines 47 to 50: normalize, reshape, reorder. The first capability that raises ends
  the sequence.
\<close>

definition pipeline :: "externals \<Rightarrow> ext_call list \<Rightarrow> ustring \<Rightarrow> ext_call list \<times> (exn + ustring)" where
  "pipeline env tr t =
     (case normalize env t of
        Inl e \<Rightarrow> (tr @ [Normalize t], Inl e)
      | Inr normalized \<Rightarrow>
          (case reshape env normalized of
             Inl e \<Rightarrow> (tr @ [Normalize t, Reshape normalized], Inl e)
           | Inr reshaped \<Rightarrow>
               (tr @ [Normalize t, Reshape normalized, GetDisplay reshaped],
                get_display env reshaped)))"

text \<open>
  The body of \<^verbatim>\<open>shape_text\<close> (lines 33 to 59). The handler of line 53 returns the
  original text. The warnings that the handler and line 38 log are not part of the
  model; formatting the caught exception for the log is taken to succeed.
\<close>

definition shape_text_body :: "externals \<Rightarrow> ext_call list \<Rightarrow> pyval \<Rightarrow> ext_call list \<times> pyval" where
  "shape_text_body env tr text =
     (if \<not> truthy text then (tr, text)
      else (case text of
              PNone \<Rightarrow> (tr, PStr [])
            | PInt i \<Rightarrow> (tr, PStr (str_of_int i))
            | PStr t \<Rightarrow>
                if contains_arabic t then
                  (case pipeline env tr t of
                     (tr', Inr bidi_text) \<Rightarrow> (tr', PStr bidi_text)
                   | (tr', Inl e) \<Rightarrow> (tr', PStr t))
                else (tr, PStr t)))"

text \<open>The decorated method: look the argument up, run the body on a miss and store what it returns.\<close>

definition shape_text :: "externals \<Rightarrow> state \<Rightarrow> pyval \<Rightarrow> state \<times> pyval" where
  "shape_text env s text =
     (case map_of (cache s) text of
        Some v \<Rightarrow> (s\<lparr>cache := lru_touch text v (cache s), hits := hits s + 1\<rparr>, v)
      | None \<Rightarrow>
          (case shape_text_body env (ext_calls s) text of
             (tr', v) \<Rightarrow>
               (s\<lparr>cache := lru_store text v (cache s), misses := misses s + 1,
                   ext_calls := tr'\<rparr>, v)))"

text \<open>A sequence of calls, each with the capabilities as they behave at that call.\<close>

fun shape_calls :: "(externals \<times> pyval) list \<Rightarrow> state \<Rightarrow> state" where
  "shape_calls [] s = s"
| "shape_calls ((env, text) # cs) s = shape_calls cs (fst (shape_text env s text))"

subsection \<open>Integration adapters\<close>

text \<open>
  A document-model object with a settable \<^verbatim>\<open>unicode\<close> field; \<^verbatim>\<open>writes\<close> counts the
  assignments made to the field.
\<close>

record text_buffer =
  unicode :: pyval
  writes :: nat

text \<open>A paragraph object either lacks the attribute \<^verbatim>\<open>unicode\<close> or has it.\<close>

datatype pdf_paragraph = ParagraphNoUnicode | Paragraph text_buffer

text \<open>
  A composition object either lacks \<^verbatim>\<open>pdf_same_style_unicode_characters\<close>, or holds
  \<^verbatim>\<open>None\<close> or a characters object there.
\<close>

datatype pdf_composition = CompositionNoChars | Composition "text_buffer option"

text \<open>
  \<^verbatim>\<open>apply_arabic_shaping_to_paragraph(paragraph, lang_code)\<close>; the argument may be
  \<^verbatim>\<open>None\<close>. The function returns nothing: the model returns the state and the object
  after the call. The line it prints is not part of the model.
\<close>

definition apply_arabic_shaping_to_paragraph ::
  "externals \<Rightarrow> state \<Rightarrow> pdf_paragraph option \<Rightarrow> ustring option \<Rightarrow> state \<times> pdf_paragraph option" where
  "apply_arabic_shaping_to_paragraph env s paragraph lang_code =
     (case paragraph of
        None \<Rightarrow> (s, paragraph)
      | Some ParagraphNoUnicode \<Rightarrow> (s, paragraph)
      | Some (Paragraph buf) \<Rightarrow>
          if \<not> truthy (unicode buf) then (s, paragraph)
          else if is_arabic_language_code env lang_code then
            (case shape_text env s (unicode buf) of
               (s', shaped_unicode) \<Rightarrow>
                 if unicode buf \<noteq> shaped_unicode
                 then (s', Some (Paragraph (buf\<lparr>unicode := shaped_unicode, writes := writes buf + 1\<rparr>)))
                 else (s', paragraph))
          else (s, paragraph))"

text \<open>
  The generator of line 183 iterates the buffer: a string yields its code points, an
  integer is not iterable.
\<close>

fun any_in_arabic_block :: "pyval \<Rightarrow> exn + bool" where
  "any_in_arabic_block (PStr t) = Inr (list_ex in_arabic_block t)"
| "any_in_arabic_block PNone = Inl TypeError"
| "any_in_arabic_block (PInt i) = Inl TypeError"

text \<open>
  \<^verbatim>\<open>apply_arabic_shaping_to_composition(composition, lang_code)\<close>. The test of line 183
  is outside the \<^verbatim>\<open>try\<close>, and \<^verbatim>\<open>or\<close> evaluates its right operand only when the left
  one is false. Inside the \<^verbatim>\<open>try\<close> nothing of the model raises; the line
  the adapter prints is not part of the model.
\<close>

definition apply_arabic_shaping_to_composition ::
  "externals \<Rightarrow> state \<Rightarrow> pdf_composition option \<Rightarrow> ustring option \<Rightarrow>
     state \<times> pdf_composition option \<times> (exn + unit)" where
  "apply_arabic_shaping_to_composition env s composition lang_code =
     (case composition of
        None \<Rightarrow> (s, composition, Inr ())
      | Some CompositionNoChars \<Rightarrow> (s, composition, Inr ())
      | Some (Composition None) \<Rightarrow> (s, composition, Inr ())
      | Some (Composition (Some buf)) \<Rightarrow>
          if \<not> truthy (unicode buf) then (s, composition, Inr ())
          else
            (case (if is_arabic_language_code env lang_code then Inr True
                   else any_in_arabic_block (unicode buf)) of
               Inl e \<Rightarrow> (s, composition, Inl e)
             | Inr arabic \<Rightarrow>
                 if arabic then
                   (case shape_text env s (unicode buf) of
                      (s', shaped_unicode) \<Rightarrow>
                        if unicode buf \<noteq> shaped_unicode
                        then (s', Some (Composition (Some
                                (buf\<lparr>unicode := shaped_unicode, writes := writes buf + 1\<rparr>))), Inr ())
                        else (s', composition, Inr ()))
                 else (s, composition, Inr ())))"

text \<open>The unicode buffer an adapter reads, when the object it is given has one.\<close>

fun paragraph_buffer :: "pdf_paragraph option \<Rightarrow> text_buffer option" where
  "paragraph_buffer (Some (Paragraph buf)) = Some buf"
| "paragraph_buffer (Some ParagraphNoUnicode) = None"
| "paragraph_buffer None = None"

fun composition_buffer :: "pdf_composition option \<Rightarrow> text_buffer option" where
  "composition_buffer (Some (Composition (Some buf))) = Some buf"
| "composition_buffer (Some (Composition None)) = None"
| "composition_buffer (Some CompositionNoChars) = None"
| "composition_buffer None = None"

subsection \<open>Concrete capabilities and inputs for the examples\<close>

text \<open>
  Capabilities that treat the letters beh (U+0628) and alef wasla (U+0671) as the
  libraries do: compatibility normalization maps the isolated presentation forms U+FE8F
  and U+FB50 back to U+0628 and U+0671, reshaping replaces an unjoined U+0628 by U+FE8F
  and an unjoined U+0671 by U+FB50, and reordering with a right-to-left base direction
  reverses a run of right-to-left characters, also when single left-to-right characters
  stand in it.
\<close>

definition example_externals :: externals where
  "example_externals =
     \<lparr>normalize = (\<lambda>t. Inr (map (\<lambda>c. if c = 0xFE8F then 0x0628
                                   else if c = 0xFB50 then 0x0671 else c) t)),
      reshape = (\<lambda>t. Inr (map (\<lambda>c. if c = 0x0628 then 0xFE8F
                                 else if c = 0x0671 then 0xFB50 else c) t)),
      get_display = (\<lambda>t. Inr (rev t)),
      unicode_lower = (\<lambda>t. t)\<rparr>"

text \<open>The same capabilities with a fault injected into reshaping.\<close>

definition failing_externals :: externals where
  "failing_externals = example_externals\<lparr>reshape := (\<lambda>t. Inl (LibraryError 0))\<rparr>"

text \<open>Calls of \<^verbatim>\<open>shape_text\<close> on the integers \<open>0, 1, \<dots>, n - 1\<close>.\<close>

definition filler_calls :: "nat \<Rightarrow> (externals \<times> pyval) list" where
  "filler_calls n = map (Pair example_externals) (map (\<lambda>i. PInt (int i)) [0..<n])"

subsection \<open>Recency of a cache entry\<close>

text \<open>The position of a key in the cache, counted from the most recently used entry.\<close>

definition rank :: "pyval \<Rightarrow> (pyval \<times> pyval) list \<Rightarrow> nat" where
  "rank k c = length (takeWhile (\<lambda>e. fst e \<noteq> k) c)"

lemmas eval_defs = shape_text_def shape_text_body_def pipeline_def contains_arabic_def
  in_arabic_block_def in_presentation_forms_a_def lru_store_def lru_touch_def maxsize_def
  init_state_def example_externals_def failing_externals_def

subsection \<open>Language-tag classification\<close>

text \<open>
  C4: \<^verbatim>\<open>is_arabic_language_code\<close> is true exactly when the lower-cased tag equals "ar",
  starts with "ar-" or ends with "-ar"; it is false for the empty tag and for \<^verbatim>\<open>None\<close>.
  It is true for "ar", "AR", "en-ar", "EN-AR" and "ar-en", and false for "", \<^verbatim>\<open>None\<close>,
  "en" and "fr-ca".
\<close>

theorem is_arabic_language_code_spec:
  "is_arabic_language_code env (Some t) =
     (str_lower env t = ustr ''ar'' \<or> prefix (ustr ''ar-'') (str_lower env t)
        \<or> suffix (ustr ''-ar'') (str_lower env t))
   \<and> is_arabic_language_code env None = False
   \<and> is_arabic_language_code env (Some (ustr ''ar''))
   \<and> is_arabic_language_code env (Some (ustr ''AR''))
   \<and> is_arabic_language_code env (Some (ustr ''en-ar''))
   \<and> is_arabic_language_code env (Some (ustr ''EN-AR''))
   \<and> is_arabic_language_code env (Some (ustr ''ar-en''))
   \<and> is_arabic_language_code env (Some []) = False
   \<and> is_arabic_language_code env (Some (ustr ''en'')) = False
   \<and> is_arabic_language_code env (Some (ustr ''fr-ca'')) = False"
proof -
  have "is_arabic_language_code env (Some t) =
     (str_lower env t = ustr ''ar'' \<or> prefix (ustr ''ar-'') (str_lower env t)
        \<or> suffix (ustr ''-ar'') (str_lower env t))"
    by (cases "t = []") (simp_all add: is_arabic_language_code_def Let_def str_lower_def ustr_def)
  then show ?thesis
    by (simp add: is_arabic_language_code_def str_lower_def ascii_lower_def ustr_def
          Let_def suffix_Cons)
qed

subsection \<open>The shaping engine\<close>

lemma body_passthrough:
  "\<not> contains_arabic t \<Longrightarrow> shape_text_body env tr (PStr t) = (tr, PStr t)"
  by (simp add: shape_text_body_def)

lemma set_lru_touch:
  "map_of c k = Some v \<Longrightarrow> set (lru_touch k v c) \<subseteq> set c"
  by (auto simp: lru_touch_def dest: map_of_SomeD)

lemma set_lru_store:
  "set (lru_store k v c) \<subseteq> insert (k, v) (set c)"
  by (auto simp: lru_store_def dest: in_set_butlastD)

lemma shape_text_miss:
  "map_of (cache s) x = None \<Longrightarrow>
   shape_text env s x =
     (s\<lparr>cache := lru_store x (snd (shape_text_body env (ext_calls s) x)) (cache s),
        misses := misses s + 1,
        ext_calls := fst (shape_text_body env (ext_calls s) x)\<rparr>,
      snd (shape_text_body env (ext_calls s) x))"
  by (simp add: shape_text_def split: prod.splits)

lemma shape_text_hit:
  "map_of (cache s) x = Some v \<Longrightarrow>
   shape_text env s x = (s\<lparr>cache := lru_touch x v (cache s), hits := hits s + 1\<rparr>, v)"
  by (simp add: shape_text_def)

lemma cache_after_call:
  "set (cache (fst (shape_text env s x)))
     \<subseteq> insert (x, snd (shape_text_body env (ext_calls s) x)) (set (cache s))"
proof (cases "map_of (cache s) x")
  case None
  then show ?thesis
    using set_lru_store [of x "snd (shape_text_body env (ext_calls s) x)" "cache s"]
    by (simp add: shape_text_miss)
next
  case (Some v)
  then show ?thesis
    using set_lru_touch [of "cache s" x v]
    by (auto simp: shape_text_hit)
qed

lemma passthrough_step:
  assumes "\<forall>t v. (PStr t, v) \<in> set (cache s) \<longrightarrow> \<not> contains_arabic t \<longrightarrow> v = PStr t"
  shows "\<forall>t v. (PStr t, v) \<in> set (cache (fst (shape_text env s x))) \<longrightarrow>
           \<not> contains_arabic t \<longrightarrow> v = PStr t"
proof (intro allI impI)
  fix t v
  assume mem: "(PStr t, v) \<in> set (cache (fst (shape_text env s x)))"
    and na: "\<not> contains_arabic t"
  from mem cache_after_call [of env s x]
  have "(PStr t, v) = (x, snd (shape_text_body env (ext_calls s) x)) \<or> (PStr t, v) \<in> set (cache s)"
    by auto
  then show "v = PStr t"
  proof
    assume "(PStr t, v) = (x, snd (shape_text_body env (ext_calls s) x))"
    then show ?thesis using na by (auto simp: body_passthrough)
  next
    assume "(PStr t, v) \<in> set (cache s)"
    then show ?thesis using assms na by blast
  qed
qed

lemma passthrough_calls:
  "\<forall>t v. (PStr t, v) \<in> set (cache s) \<longrightarrow> \<not> contains_arabic t \<longrightarrow> v = PStr t \<Longrightarrow>
   \<forall>t v. (PStr t, v) \<in> set (cache (shape_calls cs s)) \<longrightarrow> \<not> contains_arabic t \<longrightarrow> v = PStr t"
proof (induction cs arbitrary: s)
  case Nil
  then show ?case by simp
next
  case (Cons c cs)
  obtain env x where c: "c = (env, x)" by (cases c)
  show ?case
    unfolding c shape_calls.simps
    by (rule Cons.IH) (rule passthrough_step [OF Cons.prems])
qed

lemma passthrough_reachable:
  "(PStr t, v) \<in> set (cache (shape_calls cs init_state)) \<Longrightarrow> \<not> contains_arabic t \<Longrightarrow> v = PStr t"
  using passthrough_calls [of init_state cs] by (simp add: init_state_def)

lemma passthrough_call:
  assumes inv: "\<forall>v. (PStr t, v) \<in> set (cache s) \<longrightarrow> v = PStr t"
    and na: "\<not> contains_arabic t"
  shows "snd (shape_text env s (PStr t)) = PStr t"
    and "ext_calls (fst (shape_text env s (PStr t))) = ext_calls s"
proof -
  show "snd (shape_text env s (PStr t)) = PStr t"
  proof (cases "map_of (cache s) (PStr t)")
    case None
    then show ?thesis using na by (simp add: shape_text_miss body_passthrough)
  next
    case (Some v)
    then have "v = PStr t" using inv by (auto dest: map_of_SomeD)
    with Some show ?thesis by (simp add: shape_text_hit)
  qed
  show "ext_calls (fst (shape_text env s (PStr t))) = ext_calls s"
    using na by (cases "map_of (cache s) (PStr t)") (simp_all add: shape_text_miss shape_text_hit body_passthrough)
qed

lemma not_contains_arabic_iff:
  "(\<not> contains_arabic t) =
     (\<forall>c\<in>set t. \<not> (0x0600 \<le> c \<and> c \<le> 0x06FF) \<and> \<not> (0xFB50 \<le> c \<and> c \<le> 0xFDFF))"
  by (auto simp: contains_arabic_def list_ex_iff in_arabic_block_def in_presentation_forms_a_def)

text \<open>
  C1: when a call of \<^verbatim>\<open>shape_text\<close> runs its body on a text (the text is not yet in
  the cache) and the reshaping or the reordering capability raises, the call returns
  the original text; the result is a value, so nothing propagates to the caller.
\<close>

theorem shape_text_failure_containment:
  assumes "map_of (cache s) (PStr t) = None"
    and "normalize env t = Inr n"
    and "reshape env n = Inl e \<or> (\<exists>r. reshape env n = Inr r \<and> get_display env r = Inl e)"
  shows "snd (shape_text env s (PStr t)) = PStr t"
  using assms
  by (auto simp: shape_text_miss shape_text_body_def pipeline_def split: sum.splits)

theorem shape_text_failure_containment_witness:
  "map_of (cache init_state) (PStr [0x0628]) = None
   \<and> normalize failing_externals [0x0628] = Inr [0x0628]
   \<and> reshape failing_externals [0x0628] = Inl (LibraryError 0)
   \<and> contains_arabic [0x0628]
   \<and> snd (shape_text failing_externals init_state (PStr [0x0628])) = PStr [0x0628]"
proof -
  have a: "map_of (cache init_state) (PStr [0x0628]) = None"
    by (simp add: init_state_def)
  have b: "normalize failing_externals [0x0628] = Inr [0x0628]"
    by (simp add: failing_externals_def example_externals_def)
  have c: "reshape failing_externals [0x0628] = Inl (LibraryError 0)"
    by (simp add: failing_externals_def example_externals_def)
  have d: "contains_arabic [0x0628]"
    by (simp add: contains_arabic_def in_arabic_block_def)
  from c have c': "reshape failing_externals [0x0628] = Inl (LibraryError 0)
      \<or> (\<exists>r. reshape failing_externals [0x0628] = Inr r
            \<and> get_display failing_externals r = Inl (LibraryError 0))"
    by (rule disjI1)
  show ?thesis
    using a b c d shape_text_failure_containment [OF a b c'] by simp
qed

text \<open>
  C3: after any sequence of earlier calls, \<^verbatim>\<open>shape_text\<close> returns a text with no code
  point in U+0600 to U+06FF and none in U+FB50 to U+FDFF exactly as it is, and the call
  invokes none of normalization, reshaping and reordering.
\<close>

theorem shape_text_non_arabic_passthrough:
  assumes "\<forall>c\<in>set t. \<not> (0x0600 \<le> c \<and> c \<le> 0x06FF) \<and> \<not> (0xFB50 \<le> c \<and> c \<le> 0xFDFF)"
  shows "snd (shape_text env (shape_calls cs init_state) (PStr t)) = PStr t
       \<and> ext_calls (fst (shape_text env (shape_calls cs init_state) (PStr t)))
           = ext_calls (shape_calls cs init_state)"
proof -
  have na: "\<not> contains_arabic t" using assms by (simp only: not_contains_arabic_iff)
  have inv: "\<forall>v. (PStr t, v) \<in> set (cache (shape_calls cs init_state)) \<longrightarrow> v = PStr t"
    using passthrough_reachable na by blast
  show ?thesis using passthrough_call [OF inv na] by simp
qed

theorem shape_text_non_arabic_passthrough_witness:
  "\<not> contains_arabic (ustr ''Hello World'')
   \<and> snd (shape_text example_externals
        (shape_calls [(example_externals, PStr [0x0628])] init_state) (PStr (ustr ''Hello World'')))
       = PStr (ustr ''Hello World'')
   \<and> ext_calls (fst (shape_text example_externals
        (shape_calls [(example_externals, PStr [0x0628])] init_state) (PStr (ustr ''Hello World''))))
       = ext_calls (shape_calls [(example_externals, PStr [0x0628])] init_state)"
proof -
  have h: "\<forall>c\<in>set (ustr ''Hello World''). \<not> (0x0600 \<le> c \<and> c \<le> 0x06FF) \<and> \<not> (0xFB50 \<le> c \<and> c \<le> 0xFDFF)"
    by (simp add: ustr_def)
  then have "\<not> contains_arabic (ustr ''Hello World'')"
    by (simp only: not_contains_arabic_iff)
  then show ?thesis
    using shape_text_non_arabic_passthrough
      [OF h, of example_externals "[(example_externals, PStr [0x0628])]"] by blast
qed

text \<open>
  C9: the empty string is returned unchanged and a non-zero integer is returned as its
  string representation. An input that is not a string is coerced only when it is
  truthy: \<^verbatim>\<open>None\<close> and the integer 0 leave through the first test of the body and are
  returned as they are, so \<^verbatim>\<open>None\<close> is not treated as the empty string.
\<close>

theorem shape_text_non_text_input:
  "snd (shape_text env init_state (PStr [])) = PStr []
   \<and> snd (shape_text env init_state (PInt (- 42))) = PStr (ustr ''-42'')
   \<and> snd (shape_text env init_state PNone) = PNone
   \<and> snd (shape_text env init_state PNone) \<noteq> PStr []
   \<and> snd (shape_text env init_state (PInt 0)) = PInt 0"
  by (simp add: shape_text_def shape_text_body_def init_state_def str_of_int_def ustr_def)

text \<open>
  C2, as stated, fails. The text is the letter beh followed by the Arabic comma U+060C.
  The first pass returns the comma followed by the isolated form U+FE8F; the comma keeps
  that result inside the range of line 43, so the second pass normalizes, reshapes and
  reverses it again and returns a different text.
\<close>

theorem shape_text_twice_differs:
  "contains_arabic [0x0628, 0x060C]
   \<and> snd (shape_text example_externals init_state (PStr [0x0628, 0x060C])) = PStr [0x060C, 0xFE8F]
   \<and> snd (shape_text example_externals
          (fst (shape_text example_externals init_state (PStr [0x0628, 0x060C])))
          (PStr [0x060C, 0xFE8F])) = PStr [0xFE8F, 0x060C]"
  by (simp add: eval_defs)

lemma shape_calls_append:
  "shape_calls (cs @ ds) s = shape_calls ds (shape_calls cs s)"
  by (induction cs s rule: shape_calls.induct) simp_all

text \<open>
  C2, amended: when the text \<^verbatim>\<open>shape_text\<close> returns has no code point in U+0600 to
  U+06FF and none in U+FB50 to U+FDFF (the shaped letters are presentation forms of
  U+FE70 to U+FEFF, which the test of line 43 does not cover), a second application
  returns that text unchanged.
\<close>

theorem shape_text_idempotent_outside_ranges:
  assumes "snd (shape_text env (shape_calls cs init_state) (PStr t)) = PStr v"
    and "\<not> contains_arabic v"
  shows "snd (shape_text env (fst (shape_text env (shape_calls cs init_state) (PStr t))) (PStr v))
           = PStr v"
proof -
  let ?s = "fst (shape_text env (shape_calls cs init_state) (PStr t))"
  have "?s = shape_calls (cs @ [(env, PStr t)]) init_state"
    by (simp add: shape_calls_append)
  then have "\<forall>w. (PStr v, w) \<in> set (cache ?s) \<longrightarrow> w = PStr v"
    using passthrough_reachable assms(2) by metis
  then show ?thesis using assms(2) by (rule passthrough_call)
qed

theorem shape_text_idempotent_outside_ranges_witness:
  "snd (shape_text example_externals (shape_calls [] init_state) (PStr [0x0628])) = PStr [0xFE8F]
   \<and> \<not> contains_arabic [0xFE8F]
   \<and> snd (shape_text example_externals
         (fst (shape_text example_externals (shape_calls [] init_state) (PStr [0x0628])))
         (PStr [0xFE8F])) = PStr [0xFE8F]"
proof -
  have a: "snd (shape_text example_externals (shape_calls [] init_state) (PStr [0x0628]))
             = PStr [0xFE8F]"
    by (simp add: eval_defs)
  have b: "\<not> contains_arabic [0xFE8F]"
    by (simp add: contains_arabic_def in_arabic_block_def in_presentation_forms_a_def)
  show ?thesis using a b shape_text_idempotent_outside_ranges [OF a b] by simp
qed

lemma snd_pipeline: "snd (pipeline env tr t) = snd (pipeline env tr' t)"
  by (simp add: pipeline_def split: sum.splits)

lemma snd_shape_text_body:
  "snd (shape_text_body env tr x) = snd (shape_text_body env tr' x)"
proof (cases x)
  case (PStr t)
  show ?thesis
    using snd_pipeline [of env tr t tr']
    by (auto simp: PStr shape_text_body_def split: prod.splits sum.splits)
qed (simp_all add: shape_text_body_def)

lemma consistent_step:
  assumes "\<forall>k v. (k, v) \<in> set (cache s) \<longrightarrow> v = snd (shape_text_body env [] k)"
  shows "\<forall>k v. (k, v) \<in> set (cache (fst (shape_text env s x))) \<longrightarrow>
           v = snd (shape_text_body env [] k)"
proof (intro allI impI)
  fix k v
  assume "(k, v) \<in> set (cache (fst (shape_text env s x)))"
  with cache_after_call [of env s x]
  have "(k, v) = (x, snd (shape_text_body env (ext_calls s) x)) \<or> (k, v) \<in> set (cache s)"
    by auto
  then show "v = snd (shape_text_body env [] k)"
    using assms snd_shape_text_body [of env "ext_calls s" x "[]"] by auto
qed

lemma consistent_calls:
  "\<forall>k v. (k, v) \<in> set (cache s) \<longrightarrow> v = snd (shape_text_body env [] k) \<Longrightarrow>
   \<forall>k v. (k, v) \<in> set (cache (shape_calls (map (Pair env) xs) s)) \<longrightarrow>
     v = snd (shape_text_body env [] k)"
proof (induction xs arbitrary: s)
  case Nil
  then show ?case by simp
next
  case (Cons x xs)
  show ?case
    unfolding list.map shape_calls.simps
    by (rule Cons.IH) (rule consistent_step [OF Cons.prems])
qed

lemma consistent_result:
  assumes "\<forall>k v. (k, v) \<in> set (cache s) \<longrightarrow> v = snd (shape_text_body env [] k)"
  shows "snd (shape_text env s x) = snd (shape_text_body env [] x)"
proof (cases "map_of (cache s) x")
  case None
  then show ?thesis
    using snd_shape_text_body [of env "ext_calls s" x "[]"] by (simp add: shape_text_miss)
next
  case (Some v)
  then have "v = snd (shape_text_body env [] x)" using assms by (auto dest: map_of_SomeD)
  with Some show ?thesis by (simp add: shape_text_hit)
qed

text \<open>
  C5, as stated, fails when the capabilities do not behave the same at every call. An
  earlier call on the letter beh ran while reshaping raised and stored the original text;
  with the capabilities working again, the call that hits the cache returns that original
  text, while the same call on an empty cache returns the shaped text.
\<close>

theorem stale_fallback_served_on_hit:
  "map_of (cache (shape_calls [(failing_externals, PStr [0x0628])] init_state)) (PStr [0x0628])
     = Some (PStr [0x0628])
   \<and> snd (shape_text example_externals
          (shape_calls [(failing_externals, PStr [0x0628])] init_state) (PStr [0x0628]))
       = PStr [0x0628]
   \<and> map_of (cache init_state) (PStr [0x0628]) = None
   \<and> snd (shape_text example_externals init_state (PStr [0x0628])) = PStr [0xFE8F]"
  by (simp add: eval_defs)

text \<open>
  C5, amended: when the capabilities behave at every call as the same functions of their
  input, \<^verbatim>\<open>shape_text\<close> returns for a text the same value after any sequence of
  earlier calls (whether or not one of them put the text into the cache) as on an empty
  cache.
\<close>

theorem shape_text_cache_transparent:
  "snd (shape_text env (shape_calls (map (Pair env) xs) init_state) (PStr t))
     = snd (shape_text env init_state (PStr t))"
proof -
  have i: "\<forall>k v. (k, v) \<in> set (cache init_state) \<longrightarrow> v = snd (shape_text_body env [] k)"
    by (simp add: init_state_def)
  have "snd (shape_text env (shape_calls (map (Pair env) xs) init_state) (PStr t))
          = snd (shape_text_body env [] (PStr t))"
    by (rule consistent_result) (rule consistent_calls [OF i])
  also have "\<dots> = snd (shape_text env init_state (PStr t))"
    by (rule consistent_result [OF i, symmetric])
  finally show ?thesis .
qed

lemma map_of_filter_neq:
  "k \<noteq> x \<Longrightarrow> map_of (filter (\<lambda>e. fst e \<noteq> x) c) k = map_of c k"
  by (induction c) auto

lemma rank_filter_le: "k \<noteq> x \<Longrightarrow> rank k (filter (\<lambda>e. fst e \<noteq> x) c) \<le> rank k c"
  by (induction c) (auto simp: rank_def)

lemma map_of_butlast:
  "rank k c < length c - 1 \<Longrightarrow> map_of (butlast c) k = map_of c k"
  by (induction c) (auto simp: rank_def)

lemma rank_butlast:
  "rank k c < length c - 1 \<Longrightarrow> rank k (butlast c) = rank k c"
  by (induction c) (auto simp: rank_def)

lemma rank_Cons_neq: "x \<noteq> k \<Longrightarrow> rank k ((x, w) # c) = Suc (rank k c)"
  by (simp add: rank_def)

lemma rank_Cons_eq: "rank k ((k, w) # c) = 0"
  by (simp add: rank_def)

lemma entry_kept_step:
  assumes v: "map_of (cache s) k = Some v"
    and r: "rank k (cache s) + 1 < maxsize"
  shows "map_of (cache (fst (shape_text env s x))) k = Some v
       \<and> rank k (cache (fst (shape_text env s x))) \<le> rank k (cache s) + 1"
proof (cases "x = k")
  case True
  then show ?thesis using v by (simp add: shape_text_hit lru_touch_def rank_Cons_eq)
next
  case False
  show ?thesis
  proof (cases "map_of (cache s) x")
    case (Some w)
    then show ?thesis
      using False v rank_filter_le [of k x "cache s"]
      by (simp add: shape_text_hit lru_touch_def rank_Cons_neq map_of_filter_neq)
  next
    case None
    show ?thesis
    proof (cases "maxsize \<le> length (cache s)")
      case True
      then have lt: "rank k (cache s) < length (cache s) - 1" using r by simp
      show ?thesis
        using None False True v map_of_butlast [OF lt] rank_butlast [OF lt]
        by (simp add: shape_text_miss lru_store_def rank_Cons_neq)
    next
      case False
      then show ?thesis
        using None \<open>x \<noteq> k\<close> v by (simp add: shape_text_miss lru_store_def rank_Cons_neq)
    qed
  qed
qed

lemma entry_kept_calls:
  "map_of (cache s) k = Some v \<Longrightarrow> rank k (cache s) + length cs < maxsize \<Longrightarrow>
   map_of (cache (shape_calls cs s)) k = Some v"
proof (induction cs arbitrary: s)
  case Nil
  then show ?case by simp
next
  case (Cons c cs)
  obtain env x where c: "c = (env, x)" by (cases c)
  have r: "rank k (cache s) + 1 < maxsize" using Cons.prems(2) by simp
  note step = entry_kept_step [OF Cons.prems(1) r, of env x]
  have "map_of (cache (shape_calls cs (fst (shape_text env s x)))) k = Some v"
  proof (rule Cons.IH)
    show "map_of (cache (fst (shape_text env s x))) k = Some v" using step by simp
    show "rank k (cache (fst (shape_text env s x))) + length cs < maxsize"
      using step Cons.prems(2) by simp
  qed
  then show ?case by (simp add: c)
qed

lemma stored_after_miss:
  assumes "map_of (cache s) x = None"
  shows "map_of (cache (fst (shape_text env s x))) x = Some (snd (shape_text env s x))"
    and "rank x (cache (fst (shape_text env s x))) = 0"
  using assms by (simp_all add: shape_text_miss lru_store_def rank_Cons_eq)

lemma keys_lru_store:
  "length c \<le> maxsize \<Longrightarrow> map fst (lru_store k v c) = take maxsize (k # map fst c)"
  by (auto simp: lru_store_def maxsize_def butlast_conv_take take_map take_Cons split: nat.splits)

lemma take_append_take: "take n (xs @ take n ys) = take n (xs @ ys)"
  by (induction xs arbitrary: n) (auto simp: take_Cons split: nat.splits)

lemma length_lru_store: "length c \<le> maxsize \<Longrightarrow> length (lru_store k v c) \<le> maxsize"
  by (auto simp: lru_store_def maxsize_def)

lemma fresh_calls_keys:
  assumes "distinct xs" and "set xs \<inter> fst ` set (cache s) = {}" and "length (cache s) \<le> maxsize"
  shows "map fst (cache (shape_calls (map (Pair env) xs) s))
           = take maxsize (rev xs @ map fst (cache s))"
  using assms
proof (induction xs arbitrary: s)
  case Nil
  then show ?case by simp
next
  case (Cons x xs)
  let ?s' = "fst (shape_text env s x)"
  have miss: "map_of (cache s) x = None"
    using Cons.prems(2) by (simp add: map_of_eq_None_iff)
  have c': "cache ?s' = lru_store x (snd (shape_text_body env (ext_calls s) x)) (cache s)"
    using miss by (simp add: shape_text_miss)
  have k': "map fst (cache ?s') = take maxsize (x # map fst (cache s))"
    unfolding c' by (rule keys_lru_store [OF Cons.prems(3)])
  have "set (map fst (cache ?s')) \<subseteq> insert x (fst ` set (cache s))"
    unfolding k' using set_take_subset [of maxsize "x # map fst (cache s)"] by auto
  then have fresh: "set xs \<inter> fst ` set (cache ?s') = {}"
    using Cons.prems(1,2) by auto
  have len: "length (cache ?s') \<le> maxsize"
    unfolding c' by (rule length_lru_store [OF Cons.prems(3)])
  have "map fst (cache (shape_calls (map (Pair env) xs) ?s'))
          = take maxsize (rev xs @ map fst (cache ?s'))"
    using Cons.prems(1) fresh len by (intro Cons.IH) simp_all
  also have "\<dots> = take maxsize (rev xs @ x # map fst (cache s))"
    unfolding k' by (rule take_append_take)
  finally show ?case by simp
qed

text \<open>
  C10, as stated, fails: the cache holds 1024 entries. The first call takes the failure
  branch and stores the original text; 1024 calls on other arguments follow and push
  that entry out; the next call on the text runs the body again, invokes the
  capabilities, which now succeed, and returns the shaped text.
\<close>

theorem fallback_entry_evicted:
  "snd (shape_text failing_externals init_state (PStr [0x0628])) = PStr [0x0628]
   \<and> length (filler_calls 1024) = 1024
   \<and> snd (shape_text example_externals
          (shape_calls (filler_calls 1024)
             (fst (shape_text failing_externals init_state (PStr [0x0628]))))
          (PStr [0x0628])) = PStr [0xFE8F]
   \<and> ext_calls (fst (shape_text example_externals
          (shape_calls (filler_calls 1024)
             (fst (shape_text failing_externals init_state (PStr [0x0628]))))
          (PStr [0x0628])))
       = ext_calls (shape_calls (filler_calls 1024)
             (fst (shape_text failing_externals init_state (PStr [0x0628]))))
         @ [Normalize [0x0628], Reshape [0x0628], GetDisplay [0xFE8F]]"
proof -
  let ?s1 = "fst (shape_text failing_externals init_state (PStr [0x0628]))"
  let ?xs = "map (\<lambda>i. PInt (int i)) [0..<1024]"
  let ?s2 = "shape_calls (filler_calls 1024) ?s1"
  have c1: "cache ?s1 = [(PStr [0x0628], PStr [0x0628])]"
    by (simp add: eval_defs)
  have d: "distinct ?xs"
    by (simp add: distinct_map inj_on_def)
  have f: "set ?xs \<inter> fst ` set (cache ?s1) = {}"
    unfolding c1 by auto
  have l: "length (cache ?s1) \<le> maxsize"
    unfolding c1 by (simp add: maxsize_def)
  have "map fst (cache ?s2) = take maxsize (rev ?xs @ map fst (cache ?s1))"
    unfolding filler_calls_def by (rule fresh_calls_keys [OF d f l])
  then have "map fst (cache ?s2) = rev ?xs"
    by (simp add: maxsize_def)
  then have "fst ` set (cache ?s2) = set ?xs"
    by (metis set_map set_rev)
  then have "PStr [0x0628] \<notin> fst ` set (cache ?s2)" by auto
  then have miss: "map_of (cache ?s2) (PStr [0x0628]) = None"
    by (simp add: map_of_eq_None_iff)
  have again: "snd (shape_text example_externals ?s2 (PStr [0x0628])) = PStr [0xFE8F]"
    unfolding shape_text_miss [OF miss]
    by (simp add: shape_text_body_def pipeline_def contains_arabic_def in_arabic_block_def
          example_externals_def)
  have calls: "ext_calls (fst (shape_text example_externals ?s2 (PStr [0x0628])))
      = ext_calls ?s2 @ [Normalize [0x0628], Reshape [0x0628], GetDisplay [0xFE8F]]"
    unfolding shape_text_miss [OF miss]
    by (simp add: shape_text_body_def pipeline_def contains_arabic_def in_arabic_block_def
          example_externals_def)
  have first: "snd (shape_text failing_externals init_state (PStr [0x0628])) = PStr [0x0628]"
    by (simp add: eval_defs)
  have len: "length (filler_calls 1024) = 1024"
    by (simp add: filler_calls_def)
  from first len again calls show ?thesis by simp
qed

text \<open>
  C10, amended: when a call of \<^verbatim>\<open>shape_text\<close> on a text takes the failure branch, it
  returns the original text and stores it in the cache; after fewer than 1024 further
  calls, whatever their arguments, the next call on the same text returns the original
  text from the cache and invokes no capability, however the capabilities behave by
  then.
\<close>

theorem fallback_result_cached:
  assumes miss: "map_of (cache s) (PStr t) = None"
    and ar: "contains_arabic t"
    and fail: "snd (pipeline env (ext_calls s) t) = Inl e"
    and few: "length cs < 1024"
  shows "snd (shape_text env s (PStr t)) = PStr t
       \<and> map_of (cache (fst (shape_text env s (PStr t)))) (PStr t) = Some (PStr t)
       \<and> snd (shape_text env' (shape_calls cs (fst (shape_text env s (PStr t)))) (PStr t)) = PStr t
       \<and> ext_calls (fst (shape_text env' (shape_calls cs (fst (shape_text env s (PStr t)))) (PStr t)))
           = ext_calls (shape_calls cs (fst (shape_text env s (PStr t))))"
proof -
  let ?s1 = "fst (shape_text env s (PStr t))"
  let ?s2 = "shape_calls cs ?s1"
  have ret: "snd (shape_text env s (PStr t)) = PStr t"
    using miss fail by (auto simp: shape_text_miss shape_text_body_def split: prod.splits sum.splits)
  have st: "map_of (cache ?s1) (PStr t) = Some (PStr t)"
    using stored_after_miss(1) [OF miss, of env] ret by simp
  have "rank (PStr t) (cache ?s1) + length cs < maxsize"
    using stored_after_miss(2) [OF miss, of env] few by (simp add: maxsize_def)
  with st have "map_of (cache ?s2) (PStr t) = Some (PStr t)"
    by (rule entry_kept_calls)
  then have "shape_text env' ?s2 (PStr t)
      = (?s2\<lparr>cache := lru_touch (PStr t) (PStr t) (cache ?s2), hits := hits ?s2 + 1\<rparr>, PStr t)"
    by (rule shape_text_hit)
  then show ?thesis using ret st by simp
qed

theorem fallback_result_cached_witness:
  "map_of (cache init_state) (PStr [0x0628]) = None
   \<and> contains_arabic [0x0628]
   \<and> snd (pipeline failing_externals (ext_calls init_state) [0x0628]) = Inl (LibraryError 0)
   \<and> snd (pipeline example_externals (ext_calls init_state) [0x0628]) = Inr [0xFE8F]
   \<and> snd (shape_text example_externals
          (shape_calls [(example_externals, PStr [0x0041])]
             (fst (shape_text failing_externals init_state (PStr [0x0628]))))
          (PStr [0x0628])) = PStr [0x0628]"
proof -
  have a: "map_of (cache init_state) (PStr [0x0628]) = None"
    by (simp add: init_state_def)
  have b: "contains_arabic [0x0628]"
    by (simp add: contains_arabic_def in_arabic_block_def)
  have c: "snd (pipeline failing_externals (ext_calls init_state) [0x0628]) = Inl (LibraryError 0)"
    by (simp add: pipeline_def failing_externals_def example_externals_def)
  have d: "snd (pipeline example_externals (ext_calls init_state) [0x0628]) = Inr [0xFE8F]"
    by (simp add: pipeline_def example_externals_def)
  have e: "length [(example_externals, PStr [0x0041])] < 1024"
    by simp
  show ?thesis
    using a b c d fallback_result_cached [OF a b c e, of example_externals] by simp
qed

subsection \<open>The integration adapters\<close>

text \<open>
  C6: with a language code that is not Arabic, \<^verbatim>\<open>apply_arabic_shaping_to_paragraph\<close>
  leaves the paragraph, and so its unicode buffer, as it was, whatever the buffer holds;
  the shaping engine is not touched either.
\<close>

theorem paragraph_unchanged_for_non_arabic_language:
  assumes "\<not> is_arabic_language_code env lang_code"
  shows "apply_arabic_shaping_to_paragraph env s p lang_code = (s, p)"
  using assms
  by (simp add: apply_arabic_shaping_to_paragraph_def split: option.splits pdf_paragraph.splits)

theorem paragraph_unchanged_for_non_arabic_language_witness:
  "\<not> is_arabic_language_code example_externals (Some (ustr ''en''))
   \<and> contains_arabic [0x0628]
   \<and> apply_arabic_shaping_to_paragraph example_externals init_state
        (Some (Paragraph \<lparr>unicode = PStr [0x0628], writes = 0\<rparr>)) (Some (ustr ''en''))
       = (init_state, Some (Paragraph \<lparr>unicode = PStr [0x0628], writes = 0\<rparr>))"
proof -
  have h: "\<not> is_arabic_language_code example_externals (Some (ustr ''en''))"
    by (simp add: is_arabic_language_code_def str_lower_def ascii_lower_def ustr_def
          Let_def suffix_Cons)
  have d: "contains_arabic [0x0628]"
    by (simp add: contains_arabic_def in_arabic_block_def)
  show ?thesis
    using h d paragraph_unchanged_for_non_arabic_language [OF h] by simp
qed

lemmas tag_defs = is_arabic_language_code_def str_lower_def ascii_lower_def ustr_def Let_def
  suffix_Cons

text \<open>
  C7, as stated, fails. The buffer holds U+FB50, a code point of the Arabic Presentation
  Forms block, followed by the letter A, and the language is "en": the test of line 183
  looks at U+0600 to U+06FF only, so the adapter returns without a call of
  \<^verbatim>\<open>shape_text\<close>, and the engine and the composition are as before. A call of
  \<^verbatim>\<open>shape_text\<close> on the buffer would count one lookup and return the reordered text.
\<close>

theorem composition_test_ignores_presentation_forms:
  "contains_arabic [0xFB50, 0x0041]
   \<and> is_arabic_language_code example_externals (Some (ustr ''en'')) = False
   \<and> apply_arabic_shaping_to_composition example_externals init_state
        (Some (Composition (Some \<lparr>unicode = PStr [0xFB50, 0x0041], writes = 0\<rparr>)))
        (Some (ustr ''en''))
       = (init_state,
          Some (Composition (Some \<lparr>unicode = PStr [0xFB50, 0x0041], writes = 0\<rparr>)), Inr ())
   \<and> snd (shape_text example_externals init_state (PStr [0xFB50, 0x0041]))
       = PStr [0x0041, 0xFB50]
   \<and> hits (fst (shape_text example_externals init_state (PStr [0xFB50, 0x0041])))
       + misses (fst (shape_text example_externals init_state (PStr [0xFB50, 0x0041]))) = 1"
  by (simp add: eval_defs tag_defs apply_arabic_shaping_to_composition_def)

lemma lookups_shape_text:
  "hits (fst (shape_text env s x)) + misses (fst (shape_text env s x)) = hits s + misses s + 1"
  by (cases "map_of (cache s) x") (simp_all add: shape_text_miss shape_text_hit)

text \<open>
  C7, amended: on a composition whose unicode buffer is a non-empty text,
  \<^verbatim>\<open>apply_arabic_shaping_to_composition\<close> applies shaping if and only if the language
  tag denotes Arabic or the buffer contains a code point in U+0600 to U+06FF. Applying
  shaping means: the engine is left as a call of \<^verbatim>\<open>shape_text\<close> on the buffer leaves
  it (one lookup more), the buffer holds what that call returns, assigned once when it
  differs from the original, and no error is raised. Otherwise the adapter changes
  nothing.
\<close>

theorem composition_shaping_condition:
  assumes "u \<noteq> []"
  shows "(fst (apply_arabic_shaping_to_composition env s
                 (Some (Composition (Some \<lparr>unicode = PStr u, writes = w\<rparr>))) lang_code)
            = fst (shape_text env s (PStr u)))
         = (is_arabic_language_code env lang_code \<or> (\<exists>c\<in>set u. 0x0600 \<le> c \<and> c \<le> 0x06FF))
       \<and> (if is_arabic_language_code env lang_code \<or> (\<exists>c\<in>set u. 0x0600 \<le> c \<and> c \<le> 0x06FF)
          then hits (fst (apply_arabic_shaping_to_composition env s
                 (Some (Composition (Some \<lparr>unicode = PStr u, writes = w\<rparr>))) lang_code))
               + misses (fst (apply_arabic_shaping_to_composition env s
                 (Some (Composition (Some \<lparr>unicode = PStr u, writes = w\<rparr>))) lang_code))
               = hits s + misses s + 1
             \<and> apply_arabic_shaping_to_composition env s
                 (Some (Composition (Some \<lparr>unicode = PStr u, writes = w\<rparr>))) lang_code
               = (fst (shape_text env s (PStr u)),
                  Some (Composition (Some
                    \<lparr>unicode = snd (shape_text env s (PStr u)),
                     writes = (if snd (shape_text env s (PStr u)) = PStr u then w else w + 1)\<rparr>)),
                  Inr ())
          else apply_arabic_shaping_to_composition env s
                 (Some (Composition (Some \<lparr>unicode = PStr u, writes = w\<rparr>))) lang_code
               = (s, Some (Composition (Some \<lparr>unicode = PStr u, writes = w\<rparr>)), Inr ()))"
proof -
  let ?cond = "is_arabic_language_code env lang_code \<or> (\<exists>c\<in>set u. 0x0600 \<le> c \<and> c \<le> 0x06FF)"
  let ?r = "apply_arabic_shaping_to_composition env s
              (Some (Composition (Some \<lparr>unicode = PStr u, writes = w\<rparr>))) lang_code"
  have ex: "list_ex in_arabic_block u = (\<exists>c\<in>set u. 0x0600 \<le> c \<and> c \<le> 0x06FF)"
    by (simp add: list_ex_iff in_arabic_block_def)
  have ne: "fst (shape_text env s (PStr u)) \<noteq> s"
  proof
    assume "fst (shape_text env s (PStr u)) = s"
    then have "hits (fst (shape_text env s (PStr u))) + misses (fst (shape_text env s (PStr u)))
                 = hits s + misses s" by simp
    then show False by (simp add: lookups_shape_text)
  qed
  have yes: "?cond \<Longrightarrow>
      ?r = (fst (shape_text env s (PStr u)),
            Some (Composition (Some
              \<lparr>unicode = snd (shape_text env s (PStr u)),
               writes = (if snd (shape_text env s (PStr u)) = PStr u then w else w + 1)\<rparr>)),
            Inr ())"
    using assms ex
    by (auto simp: apply_arabic_shaping_to_composition_def split: prod.splits)
  have no: "\<not> ?cond \<Longrightarrow> ?r = (s, Some (Composition (Some \<lparr>unicode = PStr u, writes = w\<rparr>)), Inr ())"
    using assms ex
    by (auto simp: apply_arabic_shaping_to_composition_def)
  show ?thesis
  proof (cases ?cond)
    case True
    have "fst ?r = fst (shape_text env s (PStr u))" using yes [OF True] by simp
    with True yes [OF True] show ?thesis by (simp add: lookups_shape_text)
  next
    case False
    have "fst ?r = s" using no [OF False] by simp
    with False ne no [OF False] show ?thesis by auto
  qed
qed

theorem composition_shaping_condition_witness:
  "is_arabic_language_code example_externals (Some (ustr ''en'')) = False
   \<and> fst (apply_arabic_shaping_to_composition example_externals init_state
        (Some (Composition (Some \<lparr>unicode = PStr [0x0628], writes = 0\<rparr>))) (Some (ustr ''en'')))
       = fst (shape_text example_externals init_state (PStr [0x0628]))
   \<and> apply_arabic_shaping_to_composition example_externals init_state
        (Some (Composition (Some \<lparr>unicode = PStr [0x0628], writes = 0\<rparr>))) (Some (ustr ''en''))
       = (fst (shape_text example_externals init_state (PStr [0x0628])),
          Some (Composition (Some \<lparr>unicode = PStr [0xFE8F], writes = 1\<rparr>)), Inr ())
   \<and> apply_arabic_shaping_to_composition example_externals init_state
        (Some (Composition (Some \<lparr>unicode = PStr [0x0041], writes = 0\<rparr>))) (Some (ustr ''en''))
       = (init_state, Some (Composition (Some \<lparr>unicode = PStr [0x0041], writes = 0\<rparr>)), Inr ())"
proof -
  have n: "[0x0628::nat] \<noteq> []" "[0x0041::nat] \<noteq> []" by simp_all
  have l: "is_arabic_language_code example_externals (Some (ustr ''en'')) = False"
    by (simp add: tag_defs)
  have v: "snd (shape_text example_externals init_state (PStr [0x0628])) = PStr [0xFE8F]"
    by (simp add: eval_defs)
  show ?thesis
    using l v
      composition_shaping_condition [OF n(1), of example_externals init_state 0 "Some (ustr ''en'')"]
      composition_shaping_condition [OF n(2), of example_externals init_state 0 "Some (ustr ''en'')"]
    by simp
qed

text \<open>
  C8: each adapter either leaves its object exactly as it was, with no assignment to the
  unicode buffer, or the buffer was present, the shaped text differs from the buffer's
  value and the shaped text was assigned once. When the buffer is absent or empty, or the
  shaped text equals the buffer's value, the object is left as it was.
\<close>

theorem write_back_only_on_change:
  "(snd (apply_arabic_shaping_to_paragraph env s p lang_code) = p
      \<or> (\<exists>buf. paragraph_buffer p = Some buf
            \<and> snd (shape_text env s (unicode buf)) \<noteq> unicode buf
            \<and> paragraph_buffer (snd (apply_arabic_shaping_to_paragraph env s p lang_code))
                = Some (buf\<lparr>unicode := snd (shape_text env s (unicode buf)),
                            writes := writes buf + 1\<rparr>)))
   \<and> (paragraph_buffer p = None \<longrightarrow>
        snd (apply_arabic_shaping_to_paragraph env s p lang_code) = p)
   \<and> (\<forall>buf. paragraph_buffer p = Some buf
          \<and> (\<not> truthy (unicode buf) \<or> snd (shape_text env s (unicode buf)) = unicode buf) \<longrightarrow>
        snd (apply_arabic_shaping_to_paragraph env s p lang_code) = p)
   \<and> (fst (snd (apply_arabic_shaping_to_composition env s c lang_code)) = c
      \<or> (\<exists>buf. composition_buffer c = Some buf
            \<and> snd (shape_text env s (unicode buf)) \<noteq> unicode buf
            \<and> composition_buffer (fst (snd (apply_arabic_shaping_to_composition env s c lang_code)))
                = Some (buf\<lparr>unicode := snd (shape_text env s (unicode buf)),
                            writes := writes buf + 1\<rparr>)))
   \<and> (composition_buffer c = None \<longrightarrow>
        fst (snd (apply_arabic_shaping_to_composition env s c lang_code)) = c)
   \<and> (\<forall>buf. composition_buffer c = Some buf
          \<and> (\<not> truthy (unicode buf) \<or> snd (shape_text env s (unicode buf)) = unicode buf) \<longrightarrow>
        fst (snd (apply_arabic_shaping_to_composition env s c lang_code)) = c)"
proof -
  have p1: "snd (apply_arabic_shaping_to_paragraph env s p lang_code) = p
      \<or> (\<exists>buf. paragraph_buffer p = Some buf
            \<and> snd (shape_text env s (unicode buf)) \<noteq> unicode buf
            \<and> paragraph_buffer (snd (apply_arabic_shaping_to_paragraph env s p lang_code))
                = Some (buf\<lparr>unicode := snd (shape_text env s (unicode buf)),
                            writes := writes buf + 1\<rparr>))"
    by (cases p rule: paragraph_buffer.cases)
       (auto simp: apply_arabic_shaping_to_paragraph_def split: prod.splits)
  have p2: "paragraph_buffer p = None \<longrightarrow>
        snd (apply_arabic_shaping_to_paragraph env s p lang_code) = p"
    by (cases p rule: paragraph_buffer.cases)
       (auto simp: apply_arabic_shaping_to_paragraph_def)
  have p3: "\<forall>buf. paragraph_buffer p = Some buf
          \<and> (\<not> truthy (unicode buf) \<or> snd (shape_text env s (unicode buf)) = unicode buf) \<longrightarrow>
        snd (apply_arabic_shaping_to_paragraph env s p lang_code) = p"
    by (cases p rule: paragraph_buffer.cases)
       (auto simp: apply_arabic_shaping_to_paragraph_def split: prod.splits)
  have c1: "fst (snd (apply_arabic_shaping_to_composition env s c lang_code)) = c
      \<or> (\<exists>buf. composition_buffer c = Some buf
            \<and> snd (shape_text env s (unicode buf)) \<noteq> unicode buf
            \<and> composition_buffer (fst (snd (apply_arabic_shaping_to_composition env s c lang_code)))
                = Some (buf\<lparr>unicode := snd (shape_text env s (unicode buf)),
                            writes := writes buf + 1\<rparr>))"
    by (cases c rule: composition_buffer.cases)
       (auto simp: apply_arabic_shaping_to_composition_def split: prod.splits sum.splits)
  have c2: "composition_buffer c = None \<longrightarrow>
        fst (snd (apply_arabic_shaping_to_composition env s c lang_code)) = c"
    by (cases c rule: composition_buffer.cases)
       (auto simp: apply_arabic_shaping_to_composition_def)
  have c3: "\<forall>buf. composition_buffer c = Some buf
          \<and> (\<not> truthy (unicode buf) \<or> snd (shape_text env s (unicode buf)) = unicode buf) \<longrightarrow>
        fst (snd (apply_arabic_shaping_to_composition env s c lang_code)) = c"
    by (cases c rule: composition_buffer.cases)
       (auto simp: apply_arabic_shaping_to_composition_def split: prod.splits sum.splits)
  from p1 p2 p3 c1 c2 c3 show ?thesis by blast
qed

theorem write_back_only_on_change_witness:
  "is_arabic_language_code example_externals (Some (ustr ''ar''))
   \<and> paragraph_buffer (Some (Paragraph \<lparr>unicode = PStr [0x0041], writes = 0\<rparr>))
       = Some \<lparr>unicode = PStr [0x0041], writes = 0\<rparr>
   \<and> snd (shape_text example_externals init_state (PStr [0x0041])) = PStr [0x0041]
   \<and> snd (apply_arabic_shaping_to_paragraph example_externals init_state
        (Some (Paragraph \<lparr>unicode = PStr [0x0041], writes = 0\<rparr>)) (Some (ustr ''ar'')))
       = Some (Paragraph \<lparr>unicode = PStr [0x0041], writes = 0\<rparr>)
   \<and> composition_buffer (Some (Composition None)) = None
   \<and> fst (snd (apply_arabic_shaping_to_composition example_externals init_state
        (Some (Composition None)) (Some (ustr ''ar''))))
       = Some (Composition None)"
proof -
  have l: "is_arabic_language_code example_externals (Some (ustr ''ar''))"
    by (simp add: tag_defs)
  have b: "paragraph_buffer (Some (Paragraph \<lparr>unicode = PStr [0x0041], writes = 0\<rparr>))
       = Some \<lparr>unicode = PStr [0x0041], writes = 0\<rparr>"
    by simp
  have e: "snd (shape_text example_externals init_state (PStr [0x0041])) = PStr [0x0041]"
    by (simp add: eval_defs)
  have n: "composition_buffer (Some (Composition None)) = None"
    by simp
  note t = write_back_only_on_change [of example_externals init_state
      "Some (Paragraph \<lparr>unicode = PStr [0x0041], writes = 0\<rparr>)" "Some (ustr ''ar'')"
      "Some (Composition None)"]
  from t b e have "snd (apply_arabic_shaping_to_paragraph example_externals init_state
        (Some (Paragraph \<lparr>unicode = PStr [0x0041], writes = 0\<rparr>)) (Some (ustr ''ar'')))
       = Some (Paragraph \<lparr>unicode = PStr [0x0041], writes = 0\<rparr>)"
    by auto
  moreover from t n have "fst (snd (apply_arabic_shaping_to_composition example_externals
        init_state (Some (Composition None)) (Some (ustr ''ar''))))
       = Some (Composition None)"
    by blast
  ultimately show ?thesis using l b e n by simp
qed

end
